theory Spec2Isabelle
  imports Main
begin

section \<open>Data model\<close>

text \<open>
  A shallow embedding of \<^verbatim>\<open>padertorch/contrib/cb/track.py\<close>: the hook based tracking
  session (\<^verbatim>\<open>track\<close>), the tracker combinator (\<^verbatim>\<open>tracker_list\<close>), the shape and parameter
  trackers and the identity based weak set.

  Python exceptions are values of \<open>error\<close>. A function that may raise after it has mutated
  state returns the optional exception together with the state it leaves behind.
\<close>

datatype error = IndexError | ValueError | Raised string

text \<open>
  A \<^verbatim>\<open>torch.nn.Module\<close>: \<open>mid\<close> is the identity of the module object (\<^verbatim>\<open>id(module)\<close>),
  \<open>cls\<close> its \<^verbatim>\<open>__class__\<close>, \<open>own_params\<close> the parameters registered on the module itself and
  \<open>children\<close> what \<^verbatim>\<open>module.children()\<close> yields, in order. A parameter has an identity
  and an element count (\<^verbatim>\<open>p.numel()\<close>).
\<close>

datatype param = Param (pid: nat) (numel: nat)

datatype module = Module (mid: nat) (cls: string) (own_params: "param list") (children: "module list")

text \<open>
  The objects that flow through a module call: tuples, lists and dicts of objects, objects
  that carry a \<^verbatim>\<open>shape\<close> attribute (tensors; the dimensions are the attribute's items) and objects
  without one. A dict is the list of its items in insertion order.
\<close>

datatype obj =
    PyTuple "obj list"
  | PyList "obj list"
  | PyDict "(string \<times> obj) list"
  | Tensor "nat list"
  | Opaque

text \<open>What \<^verbatim>\<open>get_shape\<close> returns, other than \<^verbatim>\<open>None\<close>.\<close>

datatype shape =
    ShTuple "shape list"
  | ShList "shape list"
  | ShDict "(string \<times> shape) list"
  | ShDims "nat list"

section \<open>ShapeTracker.get\_shape\<close>

text \<open>Python's truth value of a result of \<^verbatim>\<open>get_shape\<close>: a container is false when it is empty.\<close>

fun truthy :: "shape \<Rightarrow> bool" where
  "truthy (ShTuple xs) = (xs \<noteq> [])"
| "truthy (ShList xs) = (xs \<noteq> [])"
| "truthy (ShDict kvs) = (kvs \<noteq> [])"
| "truthy (ShDims ds) = (ds \<noteq> [])"

text \<open>\<^verbatim>\<open>filter(None, xs)\<close>: keeps the items whose truth value is true; \<^verbatim>\<open>None\<close> is false.\<close>

fun filter_None :: "shape option list \<Rightarrow> shape list" where
  "filter_None [] = []"
| "filter_None (None # xs) = filter_None xs"
| "filter_None (Some sh # xs) = (if truthy sh then sh # filter_None xs else filter_None xs)"

text \<open>
  \<^verbatim>\<open>get_shape\<close>: \<open>get_shape_elems\<close> is the list comprehension over a sequence,
  \<open>get_shape_items\<close> the dict comprehension with its \<^verbatim>\<open>if shape is not None\<close>. The last two
  equations are the \<^verbatim>\<open>try\<close>: \<^verbatim>\<open>list(obj.shape)\<close>, or \<^verbatim>\<open>None\<close> on \<^verbatim>\<open>AttributeError\<close>.
\<close>

fun get_shape :: "obj \<Rightarrow> shape option"
  and get_shape_elems :: "obj list \<Rightarrow> shape option list"
  and get_shape_items :: "(string \<times> obj) list \<Rightarrow> (string \<times> shape) list"
where
  "get_shape (PyTuple es) = Some (ShTuple (filter_None (get_shape_elems es)))"
| "get_shape (PyList es) = Some (ShList (filter_None (get_shape_elems es)))"
| "get_shape (PyDict kvs) = Some (ShDict (get_shape_items kvs))"
| "get_shape (Tensor ds) = Some (ShDims ds)"
| "get_shape Opaque = None"
| "get_shape_elems [] = []"
| "get_shape_elems (e # es) = get_shape e # get_shape_elems es"
| "get_shape_items [] = []"
| "get_shape_items ((k, v) # kvs) =
     (case get_shape v of
        None \<Rightarrow> get_shape_items kvs
      | Some sh \<Rightarrow> (k, sh) # get_shape_items kvs)"

section \<open>Tracker and ParameterTracker\<close>

text \<open>
  \<^verbatim>\<open>Tracker.__init__\<close> stores its arguments. The attribute \<^verbatim>\<open>shared_dict\<close> is a reference to
  the one dict of the session; the model passes that dict to every method and takes it back.
  \<open>module_name_attr\<close> is the attribute \<^verbatim>\<open>module_name\<close>; an attribute that is not set yet is
  \<open>None\<close>.
\<close>

record tracker =
  count :: nat
  depth :: nat
  leaf :: bool

record parameter_tracker = tracker +
  module_name_attr :: "string option"
  num_params :: "nat option"

text \<open>
  \<^verbatim>\<open>module.parameters(recurse)\<close> of torch: the parameters of the module itself, or with
  \<^verbatim>\<open>recurse\<close> those of the module and of every module below it, the module first; a parameter
  object that was yielded before is skipped.
\<close>

fun modules :: "module \<Rightarrow> module list"
  and modules_list :: "module list \<Rightarrow> module list"
where
  "modules (Module i k ps cs) = Module i k ps cs # modules_list cs"
| "modules_list [] = []"
| "modules_list (c # cs) = modules c @ modules_list cs"

fun remove_duplicate :: "nat list \<Rightarrow> param list \<Rightarrow> param list" where
  "remove_duplicate memo [] = []"
| "remove_duplicate memo (p # ps) =
     (if pid p \<in> set memo then remove_duplicate memo ps
      else p # remove_duplicate (pid p # memo) ps)"

definition parameters :: "module \<Rightarrow> bool \<Rightarrow> param list" where
  "parameters m recurse =
     remove_duplicate [] (concat (map own_params (if recurse then modules m else [m])))"

definition ParameterTracker_init ::
  "nat \<Rightarrow> nat \<Rightarrow> bool \<Rightarrow> 'd \<Rightarrow> (error + parameter_tracker) \<times> 'd" where
  "ParameterTracker_init c d l shared =
     (Inr \<lparr>count = c, depth = d, leaf = l, module_name_attr = None, num_params = None\<rparr>, shared)"

definition ParameterTracker_pre ::
  "parameter_tracker \<Rightarrow> module \<Rightarrow> obj \<Rightarrow> 'd \<Rightarrow> error option \<times> parameter_tracker \<times> 'd" where
  "ParameterTracker_pre self m inp shared = (None, self\<lparr>module_name_attr := Some (cls m)\<rparr>, shared)"

definition ParameterTracker_post ::
  "parameter_tracker \<Rightarrow> module \<Rightarrow> obj \<Rightarrow> obj \<Rightarrow> 'd \<Rightarrow> error option \<times> parameter_tracker \<times> 'd" where
  "ParameterTracker_post self m inp out shared =
     (None, self\<lparr>num_params := Some (sum_list (map numel (parameters m (leaf self))))\<rparr>, shared)"

section \<open>Tracker kinds\<close>

text \<open>
  What \<^verbatim>\<open>track\<close> and \<^verbatim>\<open>tracker_list\<close> need of a tracker factory: the call
  \<^verbatim>\<open>tracker_factory(count, depth, leaf, shared_dict)\<close> and the methods \<^verbatim>\<open>pre\<close> and \<^verbatim>\<open>post\<close> of the
  object it returns. Each may raise, and each may mutate the shared dict (and \<^verbatim>\<open>pre\<close> and
  \<^verbatim>\<open>post\<close> the tracker object) before it raises. \<open>'t\<close> is the tracker object, a Python dict
  is a map.
\<close>

record ('t, 'k, 'v) tracker_class =
  tk_new :: "nat \<Rightarrow> nat \<Rightarrow> bool \<Rightarrow> ('k \<rightharpoonup> 'v) \<Rightarrow> (error + 't) \<times> ('k \<rightharpoonup> 'v)"
  tk_pre :: "'t \<Rightarrow> module \<Rightarrow> obj \<Rightarrow> ('k \<rightharpoonup> 'v) \<Rightarrow> error option \<times> 't \<times> ('k \<rightharpoonup> 'v)"
  tk_post :: "'t \<Rightarrow> module \<Rightarrow> obj \<Rightarrow> obj \<Rightarrow> ('k \<rightharpoonup> 'v) \<Rightarrow> error option \<times> 't \<times> ('k \<rightharpoonup> 'v)"

definition ParameterTracker :: "(parameter_tracker, 'k, 'v) tracker_class" where
  "ParameterTracker =
     \<lparr>tk_new = ParameterTracker_init, tk_pre = ParameterTracker_pre, tk_post = ParameterTracker_post\<rparr>"

section \<open>tracker\_list\<close>

text \<open>
  The sub-dict of position \<open>i\<close>: \<^verbatim>\<open>shared_dict.setdefault(i, {})\<close> returns the dict stored under
  \<open>i\<close>, or a new empty one that it stores there. The wrapped tracker mutates that dict in
  place, so the model stores the dict it hands back under \<open>i\<close> again. No code of the session
  deletes or replaces a key, so the sub-dict a wrapped instance holds stays the one under its
  position.
\<close>

definition slot :: "(nat \<rightharpoonup> ('k \<rightharpoonup> 'v)) \<Rightarrow> nat \<Rightarrow> ('k \<rightharpoonup> 'v)" where
  "slot shared i = (case shared i of None \<Rightarrow> Map.empty | Some d \<Rightarrow> d)"

text \<open>
  \<^verbatim>\<open>TrackerList.__init__\<close>: the list comprehension over \<^verbatim>\<open>enumerate(tracker_factories)\<close>, from
  position \<open>i\<close> on. A \<^verbatim>\<open>TrackerList\<close> object is its attribute \<^verbatim>\<open>instances\<close>. When a factory
  raises, no object is built.
\<close>

fun TrackerList_init_from ::
  "nat \<Rightarrow> ('t, 'k, 'v) tracker_class list \<Rightarrow> nat \<Rightarrow> nat \<Rightarrow> bool \<Rightarrow> (nat \<rightharpoonup> ('k \<rightharpoonup> 'v))
     \<Rightarrow> (error + 't list) \<times> (nat \<rightharpoonup> ('k \<rightharpoonup> 'v))" where
  "TrackerList_init_from i [] c d l shared = (Inr [], shared)"
| "TrackerList_init_from i (tf # tfs) c d l shared =
     (case tk_new tf c d l (slot shared i) of
        (Inl e, sub) \<Rightarrow> (Inl e, shared(i \<mapsto> sub))
      | (Inr t, sub) \<Rightarrow>
          (case TrackerList_init_from (Suc i) tfs c d l (shared(i \<mapsto> sub)) of
             (Inl e, shared') \<Rightarrow> (Inl e, shared')
           | (Inr ts, shared') \<Rightarrow> (Inr (t # ts), shared')))"

definition TrackerList_init ::
  "('t, 'k, 'v) tracker_class list \<Rightarrow> nat \<Rightarrow> nat \<Rightarrow> bool \<Rightarrow> (nat \<rightharpoonup> ('k \<rightharpoonup> 'v))
     \<Rightarrow> (error + 't list) \<times> (nat \<rightharpoonup> ('k \<rightharpoonup> 'v))" where
  "TrackerList_init tfs = TrackerList_init_from 0 tfs"

text \<open>
  The loop \<^verbatim>\<open>for i in self.instances: i.method(...)\<close> of \<^verbatim>\<open>pre\<close> and of \<^verbatim>\<open>post\<close>, from position
  \<open>i\<close> on: the instance at a position was built by the factory at that position, whose
  method \<open>call\<close> selects. The loop stops at the first instance that raises.
\<close>

fun for_instances ::
  "(('t, 'k, 'v) tracker_class \<Rightarrow> 't \<Rightarrow> ('k \<rightharpoonup> 'v) \<Rightarrow> error option \<times> 't \<times> ('k \<rightharpoonup> 'v))
     \<Rightarrow> nat \<Rightarrow> ('t, 'k, 'v) tracker_class list \<Rightarrow> 't list \<Rightarrow> (nat \<rightharpoonup> ('k \<rightharpoonup> 'v))
     \<Rightarrow> error option \<times> 't list \<times> (nat \<rightharpoonup> ('k \<rightharpoonup> 'v))" where
  "for_instances call i (tf # tfs) (t # ts) shared =
     (case call tf t (slot shared i) of
        (Some e, t', sub) \<Rightarrow> (Some e, t' # ts, shared(i \<mapsto> sub))
      | (None, t', sub) \<Rightarrow>
          (case for_instances call (Suc i) tfs ts (shared(i \<mapsto> sub)) of
             (r, ts', shared') \<Rightarrow> (r, t' # ts', shared')))"
| "for_instances call i tfs ts shared = (None, ts, shared)"

definition TrackerList_pre ::
  "('t, 'k, 'v) tracker_class list \<Rightarrow> 't list \<Rightarrow> module \<Rightarrow> obj \<Rightarrow> (nat \<rightharpoonup> ('k \<rightharpoonup> 'v))
     \<Rightarrow> error option \<times> 't list \<times> (nat \<rightharpoonup> ('k \<rightharpoonup> 'v))" where
  "TrackerList_pre tfs instances m inp shared =
     for_instances (\<lambda>tf t. tk_pre tf t m inp) 0 tfs instances shared"

definition TrackerList_post ::
  "('t, 'k, 'v) tracker_class list \<Rightarrow> 't list \<Rightarrow> module \<Rightarrow> obj \<Rightarrow> obj \<Rightarrow> (nat \<rightharpoonup> ('k \<rightharpoonup> 'v))
     \<Rightarrow> error option \<times> 't list \<times> (nat \<rightharpoonup> ('k \<rightharpoonup> 'v))" where
  "TrackerList_post tfs instances m inp out shared =
     for_instances (\<lambda>tf t. tk_post tf t m inp out) 0 tfs instances shared"

text \<open>\<^verbatim>\<open>__getitem__\<close> with an integer: Python's list indexing.\<close>

definition TrackerList_getitem :: "'t list \<Rightarrow> int \<Rightarrow> error + 't" where
  "TrackerList_getitem instances item =
     (let n = int (length instances);
          j = (if item < 0 then item + n else item)
      in if 0 \<le> j \<and> j < n then Inr (instances ! nat j) else Inl IndexError)"

definition tracker_list ::
  "('t, 'k, 'v) tracker_class list \<Rightarrow> ('t list, nat, 'k \<rightharpoonup> 'v) tracker_class" where
  "tracker_list tfs =
     \<lparr>tk_new = TrackerList_init tfs, tk_pre = TrackerList_pre tfs, tk_post = TrackerList_post tfs\<rparr>"

section \<open>The identity based weak set\<close>

text \<open>
  A Python object has an identity \<open>oid\<close> that no other object ever has, and an address
  \<open>addr\<close>, the value of \<^verbatim>\<open>id(obj)\<close>, which a later object may get once this one is reclaimed.
  \<open>alive\<close> holds the identities of the objects that are not reclaimed. A weak reference is
  the object it was made for; calling it gives the object while it is alive and \<^verbatim>\<open>None\<close> after.
\<close>

record pyobject =
  oid :: nat
  addr :: nat

definition weakref_call :: "nat set \<Rightarrow> pyobject \<Rightarrow> pyobject option" where
  "weakref_call live w = (if oid w \<in> live then Some w else None)"

text \<open>\<^verbatim>\<open>add\<close>: the argument is \<open>None\<close> for Python's \<^verbatim>\<open>None\<close>.\<close>

definition IDBasedWeakSet_add ::
  "pyobject option \<Rightarrow> (nat \<rightharpoonup> pyobject) \<Rightarrow> error + (nat \<rightharpoonup> pyobject)" where
  "IDBasedWeakSet_add item data =
     (case item of
        None \<Rightarrow> Inl ValueError
      | Some x \<Rightarrow> Inr (data(addr x \<mapsto> x)))"

text \<open>\<^verbatim>\<open>__contains__\<close>; \<^verbatim>\<open>ref is item\<close> compares identities.\<close>

definition IDBasedWeakSet_contains :: "nat set \<Rightarrow> (nat \<rightharpoonup> pyobject) \<Rightarrow> pyobject \<Rightarrow> bool" where
  "IDBasedWeakSet_contains live data item =
     (case data (addr item) of
        None \<Rightarrow> False
      | Some w \<Rightarrow>
          (case weakref_call live w of
             None \<Rightarrow> False
           | Some r \<Rightarrow> oid r = oid item))"

text \<open>
  The life of a set among the objects of a program: an object is allocated at an address
  with the next identity, an object is reclaimed, an object is added to the set. Only an
  object that is alive can be handed to \<^verbatim>\<open>add\<close>. A set starts empty (\<^verbatim>\<open>self.data = {}\<close>).
\<close>

datatype heap_op = Alloc nat | Reclaim nat | Add pyobject

record heap =
  alive :: "nat set"
  next_oid :: nat
  data :: "nat \<rightharpoonup> pyobject"

definition heap0 :: heap where
  "heap0 = \<lparr>alive = {}, next_oid = 0, data = Map.empty\<rparr>"

fun heap_step :: "heap \<Rightarrow> heap_op \<Rightarrow> heap" where
  "heap_step h (Alloc a) = h\<lparr>alive := insert (next_oid h) (alive h), next_oid := Suc (next_oid h)\<rparr>"
| "heap_step h (Reclaim i) = h\<lparr>alive := alive h - {i}\<rparr>"
| "heap_step h (Add x) =
     (if oid x \<in> alive h then
        (case IDBasedWeakSet_add (Some x) (data h) of
           Inl e \<Rightarrow> h
         | Inr d \<Rightarrow> h\<lparr>data := d\<rparr>)
      else h)"

definition heap_run :: "heap_op list \<Rightarrow> heap" where
  "heap_run ops = foldl heap_step heap0 ops"

definition contains_in :: "heap \<Rightarrow> pyobject \<Rightarrow> bool" where
  "contains_in h x = IDBasedWeakSet_contains (alive h) (data h) x"

section \<open>The tracking session\<close>

text \<open>
  The hooks of torch. Every module object has two ordered dicts of hooks,
  \<^verbatim>\<open>_forward_pre_hooks\<close> and \<^verbatim>\<open>_forward_hooks\<close>; registering a hook stores it under the id of a
  new \<^verbatim>\<open>RemovableHandle\<close> (ids come from one counter) and returns the handle, and
  \<^verbatim>\<open>handle.remove()\<close> deletes that id from that dict. \<open>forward_pre_hooks\<close> lists the entries of
  the first dict of all modules in the order they were stored, each with its handle id, the
  \<open>mid\<close> of its module and the \<^verbatim>\<open>leaf\<close> that the closure \<^verbatim>\<open>pre_hook\<close> holds; \<open>forward_hooks\<close> does
  so for the second dict and the closure \<^verbatim>\<open>hook\<close>. The modules carry no other hooks.
\<close>

datatype hooks_dict = ForwardPre nat | Forward nat

datatype handle = Handle hooks_dict nat

text \<open>
  What a session does to the trackers, in order: the factory returned tracker object \<open>r\<close>
  for the arguments \<open>count\<close>, \<open>depth\<close> and \<open>leaf\<close>; \<^verbatim>\<open>pre\<close> of tracker \<open>r\<close> was called with the
  module \<open>mid\<close>; \<^verbatim>\<open>post\<close> of tracker \<open>r\<close> was called with the module \<open>mid\<close>.
\<close>

datatype event = EvInit nat nat nat bool | EvPre nat nat | EvPost nat nat

text \<open>
  The variables of \<^verbatim>\<open>track\<close> (\<open>shared_dict\<close>, \<open>all_trackers\<close>, \<open>tracker_stack\<close>, \<open>hooks\<close>) and
  what surrounds them: the tracker objects (a tracker is referred to by its position in
  \<open>objects\<close>, so the stack and the result list hold the same object), the hook dicts of the
  modules, the counter of handle ids and the events so far.
\<close>

record ('t, 'k, 'v) session =
  shared_dict :: "'k \<rightharpoonup> 'v"
  all_trackers :: "nat list"
  tracker_stack :: "nat list"
  hooks :: "handle list"
  objects :: "'t list"
  forward_pre_hooks :: "(nat \<times> nat \<times> bool) list"
  forward_hooks :: "(nat \<times> nat) list"
  next_id :: nat
  trace :: "event list"

definition init_session :: "('t, 'k, 'v) session" where
  "init_session =
     \<lparr>shared_dict = Map.empty, all_trackers = [], tracker_stack = [], hooks = [],
      objects = [], forward_pre_hooks = [], forward_hooks = [], next_id = 0, trace = []\<rparr>"

text \<open>The closure \<^verbatim>\<open>pre_hook\<close> of \<^verbatim>\<open>register_hook(module, leaf)\<close>.\<close>

definition pre_hook ::
  "('t, 'k, 'v) tracker_class \<Rightarrow> bool \<Rightarrow> module \<Rightarrow> obj \<Rightarrow> ('t, 'k, 'v) session
     \<Rightarrow> error option \<times> ('t, 'k, 'v) session" where
  "pre_hook tracker_factory lf m inp s =
     (case tk_new tracker_factory (length (all_trackers s)) (length (tracker_stack s)) lf
             (shared_dict s) of
        (Inl e, sd) \<Rightarrow> (Some e, s\<lparr>shared_dict := sd\<rparr>)
      | (Inr t, sd) \<Rightarrow>
          (let r = length (objects s);
               made = EvInit r (length (all_trackers s)) (length (tracker_stack s)) lf
           in case tk_pre tracker_factory t m inp sd of
                (Some e, t', sd') \<Rightarrow>
                  (Some e, s\<lparr>shared_dict := sd', objects := objects s @ [t'],
                             trace := trace s @ [made, EvPre r (mid m)]\<rparr>)
              | (None, t', sd') \<Rightarrow>
                  (None, s\<lparr>shared_dict := sd', objects := objects s @ [t'],
                           trace := trace s @ [made, EvPre r (mid m)],
                           tracker_stack := tracker_stack s @ [r],
                           all_trackers := all_trackers s @ [r]\<rparr>)))"

text \<open>The closure \<^verbatim>\<open>hook\<close>; \<^verbatim>\<open>pop\<close> of an empty list raises \<^verbatim>\<open>IndexError\<close>.\<close>

definition hook ::
  "('t, 'k, 'v) tracker_class \<Rightarrow> module \<Rightarrow> obj \<Rightarrow> obj \<Rightarrow> ('t, 'k, 'v) session
     \<Rightarrow> error option \<times> ('t, 'k, 'v) session" where
  "hook tracker_factory m inp out s =
     (if tracker_stack s = [] then (Some IndexError, s)
      else
        (let r = last (tracker_stack s) in
         case tk_post tracker_factory (objects s ! r) m inp out (shared_dict s) of
           (e, t', sd') \<Rightarrow>
             (e, s\<lparr>tracker_stack := butlast (tracker_stack s), shared_dict := sd',
                   objects := (objects s)[r := t'],
                   trace := trace s @ [EvPost r (mid m)]\<rparr>)))"

definition register_hook :: "module \<Rightarrow> bool \<Rightarrow> ('t, 'k, 'v) session \<Rightarrow> ('t, 'k, 'v) session" where
  "register_hook m lf s =
     s\<lparr>forward_pre_hooks := forward_pre_hooks s @ [(next_id s, mid m, lf)],
       forward_hooks := forward_hooks s @ [(Suc (next_id s), mid m)],
       hooks := hooks s @ [Handle (ForwardPre (mid m)) (next_id s),
                           Handle (Forward (mid m)) (Suc (next_id s))],
       next_id := Suc (Suc (next_id s))\<rparr>"

text \<open>
  \<^verbatim>\<open>apply_filtered(self, fn)\<close>, with the state that \<^verbatim>\<open>fn\<close> changes; \<open>apply_filtered_children\<close>
  is the loop over \<^verbatim>\<open>self.children()\<close>, after which \<^verbatim>\<open>is_leaf\<close> is true when there was no child.
\<close>

fun apply_filtered :: "string list \<Rightarrow> module \<Rightarrow> (module \<Rightarrow> bool \<Rightarrow> 's \<Rightarrow> 's) \<Rightarrow> 's \<Rightarrow> 's"
  and apply_filtered_children ::
    "string list \<Rightarrow> module list \<Rightarrow> (module \<Rightarrow> bool \<Rightarrow> 's \<Rightarrow> 's) \<Rightarrow> 's \<Rightarrow> 's"
where
  "apply_filtered leaf_types (Module i k ps cs) fn s =
     fn (Module i k ps cs) (cs = []) (apply_filtered_children leaf_types cs fn s)"
| "apply_filtered_children leaf_types [] fn s = s"
| "apply_filtered_children leaf_types (c # cs) fn s =
     apply_filtered_children leaf_types cs fn
       (if cls c \<in> set leaf_types then fn c True s else apply_filtered leaf_types c fn s)"

text \<open>\<^verbatim>\<open>h.remove()\<close>.\<close>

fun remove :: "handle \<Rightarrow> ('t, 'k, 'v) session \<Rightarrow> ('t, 'k, 'v) session" where
  "remove (Handle (ForwardPre m) i) s =
     s\<lparr>forward_pre_hooks := filter (\<lambda>(j, m', lf). \<not> (j = i \<and> m' = m)) (forward_pre_hooks s)\<rparr>"
| "remove (Handle (Forward m) i) s =
     s\<lparr>forward_hooks := filter (\<lambda>(j, m'). \<not> (j = i \<and> m' = m)) (forward_hooks s)\<rparr>"

text \<open>
  One call of a module: its input, the calls of modules that its \<^verbatim>\<open>forward\<close> makes, in order,
  and then the output that \<^verbatim>\<open>forward\<close> returns or the exception it raises. An exception of a
  nested call is not caught.
\<close>

datatype call = Call module obj "call list" "error + obj"

text \<open>The hooks that torch finds on a module when it is called.\<close>

definition pre_hooks_of :: "('t, 'k, 'v) session \<Rightarrow> module \<Rightarrow> bool list" where
  "pre_hooks_of s m = map (\<lambda>(j, m', lf). lf) (filter (\<lambda>(j, m', lf). m' = mid m) (forward_pre_hooks s))"

definition hooks_of :: "('t, 'k, 'v) session \<Rightarrow> module \<Rightarrow> nat" where
  "hooks_of s m = length (filter (\<lambda>(j, m'). m' = mid m) (forward_hooks s))"

fun run_pre_hooks ::
  "('t, 'k, 'v) tracker_class \<Rightarrow> bool list \<Rightarrow> module \<Rightarrow> obj \<Rightarrow> ('t, 'k, 'v) session
     \<Rightarrow> error option \<times> ('t, 'k, 'v) session" where
  "run_pre_hooks tf [] m inp s = (None, s)"
| "run_pre_hooks tf (lf # lfs) m inp s =
     (case pre_hook tf lf m inp s of
        (Some e, s') \<Rightarrow> (Some e, s')
      | (None, s') \<Rightarrow> run_pre_hooks tf lfs m inp s')"

fun run_hooks ::
  "('t, 'k, 'v) tracker_class \<Rightarrow> nat \<Rightarrow> module \<Rightarrow> obj \<Rightarrow> obj \<Rightarrow> ('t, 'k, 'v) session
     \<Rightarrow> error option \<times> ('t, 'k, 'v) session" where
  "run_hooks tf 0 m inp out s = (None, s)"
| "run_hooks tf (Suc n) m inp out s =
     (case hook tf m inp out s of
        (Some e, s') \<Rightarrow> (Some e, s')
      | (None, s') \<Rightarrow> run_hooks tf n m inp out s')"

text \<open>
  \<^verbatim>\<open>module(input)\<close> as torch runs it: the forward pre-hooks of the module in the order they
  were registered, \<^verbatim>\<open>forward\<close>, and when it returned the forward hooks in the order they were
  registered. \<open>call_modules\<close> runs calls one after the other, up to the first that raises.
\<close>

fun call_module ::
  "('t, 'k, 'v) tracker_class \<Rightarrow> call \<Rightarrow> ('t, 'k, 'v) session \<Rightarrow> error option \<times> ('t, 'k, 'v) session"
  and call_modules ::
  "('t, 'k, 'v) tracker_class \<Rightarrow> call list \<Rightarrow> ('t, 'k, 'v) session \<Rightarrow> error option \<times> ('t, 'k, 'v) session"
where
  "call_module tf (Call m inp subs res) s =
     (case run_pre_hooks tf (pre_hooks_of s m) m inp s of
        (Some e, s1) \<Rightarrow> (Some e, s1)
      | (None, s1) \<Rightarrow>
          (case call_modules tf subs s1 of
             (Some e, s2) \<Rightarrow> (Some e, s2)
           | (None, s2) \<Rightarrow>
               (case res of
                  Inl e \<Rightarrow> (Some e, s2)
                | Inr out \<Rightarrow> run_hooks tf (hooks_of s2 m) m inp out s2)))"
| "call_modules tf [] s = (None, s)"
| "call_modules tf (c # cs) s =
     (case call_module tf c s of
        (Some e, s') \<Rightarrow> (Some e, s')
      | (None, s') \<Rightarrow> call_modules tf cs s')"

text \<open>
  \<^verbatim>\<open>with track(net, tracker_factory, leaf_types) as trackers: body\<close>, where the body calls
  modules: \<open>track_enter\<close> is the generator up to its \<^verbatim>\<open>yield\<close>, \<open>track_exit\<close> its \<^verbatim>\<open>finally\<close>
  block. The result is the exception that leaves the \<^verbatim>\<open>with\<close> statement, if any, and the state
  after it.
\<close>

definition track_enter :: "string list \<Rightarrow> module \<Rightarrow> ('t, 'k, 'v) session" where
  "track_enter leaf_types net = apply_filtered leaf_types net register_hook init_session"

definition track_exit :: "('t, 'k, 'v) session \<Rightarrow> ('t, 'k, 'v) session" where
  "track_exit s = fold remove (hooks s) s"

definition track ::
  "('t, 'k, 'v) tracker_class \<Rightarrow> string list \<Rightarrow> module \<Rightarrow> call list
     \<Rightarrow> error option \<times> ('t, 'k, 'v) session" where
  "track tracker_factory leaf_types net body =
     (case call_modules tracker_factory body (track_enter leaf_types net) of
        (r, s) \<Rightarrow> (r, track_exit s))"

section \<open>Reading a session\<close>

text \<open>
  The calls of \<^verbatim>\<open>fn\<close> that \<^verbatim>\<open>apply_filtered\<close> makes for a tree, in order, each with its
  \<^verbatim>\<open>leaf\<close> argument.
\<close>

definition registrations :: "string list \<Rightarrow> module \<Rightarrow> (module \<times> bool) list" where
  "registrations leaf_types net =
     apply_filtered leaf_types net (\<lambda>m lf regs. regs @ [(m, lf)]) []"

text \<open>The same list by recursion over the tree, for the proofs.\<close>

fun fn_calls :: "string list \<Rightarrow> module \<Rightarrow> (module \<times> bool) list"
  and fn_calls_children :: "string list \<Rightarrow> module list \<Rightarrow> (module \<times> bool) list"
where
  "fn_calls leaf_types (Module i k ps cs) =
     fn_calls_children leaf_types cs @ [(Module i k ps cs, cs = [])]"
| "fn_calls_children leaf_types [] = []"
| "fn_calls_children leaf_types (c # cs) =
     (if cls c \<in> set leaf_types then [(c, True)] else fn_calls leaf_types c)
       @ fn_calls_children leaf_types cs"









text \<open>Nothing was attached or detached between two states.\<close>

definition same_hooks :: "('t, 'k, 'v) session \<Rightarrow> ('t, 'k, 'v) session \<Rightarrow> bool" where
  "same_hooks s s' \<longleftrightarrow>
     forward_pre_hooks s' = forward_pre_hooks s \<and> forward_hooks s' = forward_hooks s \<and>
     hooks s' = hooks s"

text \<open>The list \<^verbatim>\<open>hooks\<close> holds the handle of every hook that is attached.\<close>

definition covered :: "('t, 'k, 'v) session \<Rightarrow> bool" where
  "covered s \<longleftrightarrow>
     (\<forall>(j, m, lf) \<in> set (forward_pre_hooks s). Handle (ForwardPre m) j \<in> set (hooks s)) \<and>
     (\<forall>(j, m) \<in> set (forward_hooks s). Handle (Forward m) j \<in> set (hooks s))"


text \<open>
  Every entry of the stack and of the result list refers to a tracker object that exists;
  \<^verbatim>\<open>hook\<close> reads the object of the entry it pops.
\<close>

definition refs_valid :: "('t, 'k, 'v) session \<Rightarrow> bool" where
  "refs_valid s \<longleftrightarrow>
     (\<forall>r \<in> set (tracker_stack s). r < length (objects s)) \<and>
     (\<forall>r \<in> set (all_trackers s). r < length (objects s))"


section \<open>Examples\<close>

text \<open>
  The net of the doctests,
  \<^verbatim>\<open>Sequential(Linear(3, 1000), ReLU(), Sequential(Linear(1000, 2), ReLU()))\<close>, and the call
  \<^verbatim>\<open>net(torch.randn(7, 3))\<close>: a \<^verbatim>\<open>Sequential\<close> calls its children in order.
\<close>

definition ex_inner :: module where
  "ex_inner =
     Module 3 ''Sequential'' []
       [Module 4 ''Linear'' [Param 2 2000, Param 3 2] [], Module 5 ''ReLU'' [] []]"

definition ex_net :: module where
  "ex_net =
     Module 0 ''Sequential'' []
       [Module 1 ''Linear'' [Param 0 3000, Param 1 1000] [], Module 2 ''ReLU'' [] [], ex_inner]"

definition ex_call :: call where
  "ex_call =
     Call ex_net (PyTuple [Tensor [7, 3]])
       [Call (Module 1 ''Linear'' [Param 0 3000, Param 1 1000] []) (PyTuple [Tensor [7, 3]]) []
          (Inr (Tensor [7, 1000])),
        Call (Module 2 ''ReLU'' [] []) (PyTuple [Tensor [7, 1000]]) [] (Inr (Tensor [7, 1000])),
        Call ex_inner (PyTuple [Tensor [7, 1000]])
          [Call (Module 4 ''Linear'' [Param 2 2000, Param 3 2] []) (PyTuple [Tensor [7, 1000]]) []
             (Inr (Tensor [7, 2])),
           Call (Module 5 ''ReLU'' [] []) (PyTuple [Tensor [7, 2]]) [] (Inr (Tensor [7, 2]))]
          (Inr (Tensor [7, 2]))]
       (Inr (Tensor [7, 2]))"

text \<open>A tracker of the inner \<^verbatim>\<open>Sequential\<close> that was hooked as a leaf.\<close>

definition ex_leaf_tracker :: parameter_tracker where
  "ex_leaf_tracker =
     \<lparr>count = 3, depth = 1, leaf = True, module_name_attr = Some ''Sequential'', num_params = None\<rparr>"

text \<open>A tracker kind whose \<^verbatim>\<open>pre\<close> raises, and one whose factory raises.\<close>

definition raising_pre :: "(unit, nat, nat) tracker_class" where
  "raising_pre =
     \<lparr>tk_new = (\<lambda>c d l sd. (Inr (), sd)),
      tk_pre = (\<lambda>t m inp sd. (Some (Raised ''pre''), t, sd)),
      tk_post = (\<lambda>t m inp out sd. (None, t, sd))\<rparr>"

definition raising_factory :: "(unit, nat, nat) tracker_class" where
  "raising_factory =
     \<lparr>tk_new = (\<lambda>c d l sd. (Inl (Raised ''factory''), sd)),
      tk_pre = (\<lambda>t m inp sd. (None, t, sd)),
      tk_post = (\<lambda>t m inp out sd. (None, t, sd))\<rparr>"

text \<open>
  Two objects at one address: \<open>ex_a\<close> is the first object allocated, \<open>ex_b\<close> the second, and
  the second gets the address of the first once that one is reclaimed.
\<close>

definition ex_a :: pyobject where
  "ex_a = \<lparr>oid = 0, addr = 100\<rparr>"

definition ex_b :: pyobject where
  "ex_b = \<lparr>oid = 1, addr = 100\<rparr>"

definition ex_reused :: "heap_op list" where
  "ex_reused = [Alloc 100, Add ex_a, Reclaim 0, Alloc 100]"

text \<open>
  Two tracker kinds for the combinator. The tracker object of both is the number of its
  methods that have run. \<open>ex_counter\<close> writes into its sub-dict: under 0 the \<^verbatim>\<open>count\<close> it was
  built with, under 1 the module of its last \<^verbatim>\<open>pre\<close>, under 2 that of its last \<^verbatim>\<open>post\<close>.
  \<open>ex_raising\<close> raises in \<^verbatim>\<open>pre\<close> and in \<^verbatim>\<open>post\<close>.
\<close>

definition ex_counter :: "(nat, nat, nat) tracker_class" where
  "ex_counter =
     \<lparr>tk_new = (\<lambda>c d l sd. (Inr 0, sd(0 \<mapsto> c))),
      tk_pre = (\<lambda>t m inp sd. (None, Suc t, sd(1 \<mapsto> mid m))),
      tk_post = (\<lambda>t m inp out sd. (None, Suc t, sd(2 \<mapsto> mid m)))\<rparr>"

definition ex_raising :: "(nat, nat, nat) tracker_class" where
  "ex_raising =
     \<lparr>tk_new = (\<lambda>c d l sd. (Inr 0, sd)),
      tk_pre = (\<lambda>t m inp sd. (Some (Raised ''pre''), t, sd)),
      tk_post = (\<lambda>t m inp out sd. (Some (Raised ''post''), t, sd))\<rparr>"

text \<open>The same call of the net when \<^verbatim>\<open>forward\<close> of the first \<^verbatim>\<open>Linear\<close> raises.\<close>

definition ex_failing_call :: call where
  "ex_failing_call =
     Call ex_net (PyTuple [Tensor [7, 4]])
       [Call (Module 1 ''Linear'' [Param 0 3000, Param 1 1000] []) (PyTuple [Tensor [7, 4]]) []
          (Inl (Raised ''size mismatch''))]
       (Inr (Tensor [7, 2]))"

text \<open>
  Sessions over the doctest net with \<^verbatim>\<open>ParameterTracker\<close>: the doctest itself; the session whose
  body raises; the session with \<^verbatim>\<open>leaf_types=(Sequential,)\<close>, which hooks the inner \<^verbatim>\<open>Sequential\<close>
  as a leaf and nothing below it; and a session whose body calls the net from the
  \<^verbatim>\<open>forward\<close> of a module that is not part of the net.
\<close>

definition ex_session :: "error option \<times> (parameter_tracker, nat, nat) session" where
  "ex_session = track ParameterTracker [] ex_net [ex_call]"

definition ex_failed_session :: "error option \<times> (parameter_tracker, nat, nat) session" where
  "ex_failed_session = track ParameterTracker [] ex_net [ex_failing_call]"




section \<open>Shape resolution\<close>

text \<open>
  C7. A scalar tensor has a shape, the empty list of dimensions, and \<^verbatim>\<open>get_shape\<close> resolves it
  to that list. In a sequence the element is dropped all the same, because \<^verbatim>\<open>filter(None, ...)\<close>
  drops every false result and the empty list is false; in a dict, where the test is
  \<^verbatim>\<open>shape is not None\<close>, the same value is kept.
\<close>

theorem get_shape_drops_scalar:
  "get_shape (Tensor []) = Some (ShDims []) \<and>
   get_shape (PyTuple [Tensor [7, 3], Tensor []]) = Some (ShTuple [ShDims [7, 3]]) \<and>
   get_shape (PyDict [(''x'', Tensor [7, 3]), (''y'', Tensor [])]) =
     Some (ShDict [(''x'', ShDims [7, 3]), (''y'', ShDims [])])"
  by simp

text \<open>The shapes of the doctest: \<^verbatim>\<open>([7, 3],) -> [7, 2]\<close>.\<close>

lemma get_shape_doctest:
  "get_shape (PyTuple [Tensor [7, 3]]) = Some (ShTuple [ShDims [7, 3]]) \<and>
   get_shape (Tensor [7, 2]) = Some (ShDims [7, 2]) \<and>
   get_shape (PyList [Tensor [7, 3], Opaque, PyDict [(''h'', Tensor [2]), (''len'', Opaque)]]) =
     Some (ShList [ShDims [7, 3], ShDict [(''h'', ShDims [2])]])"
  by simp

section \<open>Parameter counts\<close>

lemma remove_duplicate_pids:
  "set (map pid (remove_duplicate memo ps)) = set (map pid ps) - set memo"
  by (induction ps arbitrary: memo) auto

lemma remove_duplicate_distinct: "distinct (map pid (remove_duplicate memo ps))"
proof (induction ps arbitrary: memo)
  case Nil
  show ?case by simp
next
  case (Cons p ps)
  have "pid p \<notin> set (map pid (remove_duplicate (pid p # memo) ps))"
    unfolding remove_duplicate_pids by simp
  with Cons show ?case by simp
qed

text \<open>
  C3, as the code has it. \<^verbatim>\<open>ParameterTracker.post\<close> sets \<^verbatim>\<open>num_params\<close> to the sum of the element
  counts of \<^verbatim>\<open>module.parameters(recurse=self.leaf)\<close>, every parameter object once: when the
  leaf flag is true these are the parameters of the node and of all modules below it, when
  it is false only the node's own parameters.
\<close>

theorem ParameterTracker_post_counts:
  "num_params (fst (snd (ParameterTracker_post self m inp out shared))) =
     Some (sum_list (map numel (parameters m (leaf self)))) \<and>
   distinct (map pid (parameters m (leaf self))) \<and>
   (leaf self \<longrightarrow>
      set (map pid (parameters m (leaf self))) =
        set (map pid (concat (map own_params (modules m))))) \<and>
   (\<not> leaf self \<longrightarrow>
      set (map pid (parameters m (leaf self))) = set (map pid (own_params m)))"
  by (simp add: ParameterTracker_post_def parameters_def remove_duplicate_distinct
      remove_duplicate_pids del: set_map set_concat)

theorem ParameterTracker_post_counts_witness:
  "leaf ex_leaf_tracker \<and>
   num_params (fst (snd (ParameterTracker_post ex_leaf_tracker ex_inner Opaque Opaque
     (Map.empty :: nat \<rightharpoonup> nat)))) = Some 2002 \<and>
   set (map pid (parameters ex_inner True)) = {2, 3} \<and>
   \<not> leaf (ex_leaf_tracker\<lparr>leaf := False\<rparr>) \<and>
   num_params (fst (snd (ParameterTracker_post (ex_leaf_tracker\<lparr>leaf := False\<rparr>) ex_inner Opaque
     Opaque (Map.empty :: nat \<rightharpoonup> nat)))) = Some 0 \<and>
   set (map pid (parameters ex_inner False)) = {}"
  using ParameterTracker_post_counts [of ex_leaf_tracker ex_inner Opaque Opaque
      "Map.empty :: nat \<rightharpoonup> nat"]
    ParameterTracker_post_counts [of "ex_leaf_tracker\<lparr>leaf := False\<rparr>" ex_inner Opaque Opaque
      "Map.empty :: nat \<rightharpoonup> nat"]
  by (simp add: ex_leaf_tracker_def ex_inner_def parameters_def)

text \<open>
  The claim C3 as it is written fails: the tracker of the inner \<^verbatim>\<open>Sequential\<close>, hooked as a
  leaf, counts the 2002 elements of the \<^verbatim>\<open>Linear\<close> below it, while the node has no parameter
  of its own.
\<close>

theorem ParameterTracker_post_leaf_counterexample:
  "leaf ex_leaf_tracker \<and>
   num_params (fst (snd (ParameterTracker_post ex_leaf_tracker ex_inner Opaque Opaque
     (Map.empty :: nat \<rightharpoonup> nat)))) = Some 2002 \<and>
   sum_list (map numel (own_params ex_inner)) = 0"
  by (simp add: ParameterTracker_post_def parameters_def ex_inner_def ex_leaf_tracker_def)

section \<open>The entry interceptor\<close>

text \<open>
  C10. In \<^verbatim>\<open>pre_hook\<close>, an exception of the tracker factory or of the tracker's \<^verbatim>\<open>pre\<close> leaves
  \<^verbatim>\<open>pre_hook\<close> as it is, and whenever \<^verbatim>\<open>pre_hook\<close> raises, the call stack and the result list are
  what they were. When it returns, the factory and \<^verbatim>\<open>pre\<close> have both returned, and the tracker
  they produced is the one new entry of the stack and of the result list.
\<close>

theorem pre_hook_appends_after_pre:
  "(tk_new tf (length (all_trackers s)) (length (tracker_stack s)) lf (shared_dict s) = (Inl e, sd) \<longrightarrow>
      fst (pre_hook tf lf m inp s) = Some e) \<and>
   (tk_new tf (length (all_trackers s)) (length (tracker_stack s)) lf (shared_dict s) = (Inr t, sd) \<longrightarrow>
      tk_pre tf t m inp sd = (Some e, t', sd') \<longrightarrow> fst (pre_hook tf lf m inp s) = Some e) \<and>
   (pre_hook tf lf m inp s = (Some e, s') \<longrightarrow>
      tracker_stack s' = tracker_stack s \<and> all_trackers s' = all_trackers s) \<and>
   (pre_hook tf lf m inp s = (None, s') \<longrightarrow>
      (\<exists>t sd t' sd'.
         tk_new tf (length (all_trackers s)) (length (tracker_stack s)) lf (shared_dict s) = (Inr t, sd) \<and>
         tk_pre tf t m inp sd = (None, t', sd') \<and>
         objects s' = objects s @ [t'] \<and>
         tracker_stack s' = tracker_stack s @ [length (objects s)] \<and>
         all_trackers s' = all_trackers s @ [length (objects s)]))"
  by (auto simp: pre_hook_def Let_def split: prod.splits sum.splits option.splits)

theorem pre_hook_appends_after_pre_witness:
  "pre_hook raising_pre True ex_net Opaque
     (init_session\<lparr>tracker_stack := [0], all_trackers := [0], objects := [()]\<rparr>) =
     (Some (Raised ''pre''),
      init_session\<lparr>tracker_stack := [0], all_trackers := [0], objects := [(), ()],
        trace := [EvInit 1 1 1 True, EvPre 1 0]\<rparr>) \<and>
   fst (pre_hook raising_factory True ex_net Opaque init_session) = Some (Raised ''factory'') \<and>
   tracker_stack (snd (pre_hook raising_factory True ex_net Opaque init_session)) = [] \<and>
   all_trackers (snd (pre_hook raising_factory True ex_net Opaque init_session)) = [] \<and>
   tracker_stack (snd (pre_hook ParameterTracker True ex_net Opaque
     (init_session :: (parameter_tracker, nat, nat) session))) = [0]"
  using pre_hook_appends_after_pre [where tf = raising_pre
      and s = "init_session\<lparr>tracker_stack := [0], all_trackers := [0], objects := [()]\<rparr>"
      and lf = True and m = ex_net and inp = Opaque and e = "Raised ''pre''"
      and s' = "init_session\<lparr>tracker_stack := [0], all_trackers := [0], objects := [(), ()],
           trace := [EvInit 1 1 1 True, EvPre 1 0]\<rparr>"]
  by (simp add: pre_hook_def raising_pre_def raising_factory_def init_session_def ex_net_def
      ParameterTracker_def ParameterTracker_init_def ParameterTracker_pre_def)

section \<open>The identity based weak set\<close>

lemma contains_iff:
  "IDBasedWeakSet_contains live d y \<longleftrightarrow>
     (\<exists>w. d (addr y) = Some w \<and> oid w = oid y \<and> oid y \<in> live)"
  by (auto simp: IDBasedWeakSet_contains_def weakref_call_def split: option.splits)











text \<open>
  C9. \<^verbatim>\<open>y in s\<close> is true exactly when the reference stored under \<^verbatim>\<open>id(y)\<close> refers to \<open>y\<close> itself
  and \<open>y\<close> is alive. So when the entry under \<^verbatim>\<open>id(y)\<close> was made for another object \<open>x\<close>, whose
  address \<open>y\<close> has got, the answer for \<open>y\<close> is false, whether \<open>x\<close> is reclaimed or not.
\<close>

theorem IDBasedWeakSet_contains_identity:
  "(IDBasedWeakSet_contains live d y \<longleftrightarrow>
      (\<exists>w. d (addr y) = Some w \<and> oid w = oid y \<and> oid y \<in> live)) \<and>
   (d (addr y) = Some x \<longrightarrow> oid x \<noteq> oid y \<longrightarrow> \<not> IDBasedWeakSet_contains live d y)"
  by (auto simp: contains_iff)

theorem IDBasedWeakSet_contains_identity_witness:
  "data (heap_run ex_reused) (addr ex_b) = Some ex_a \<and>
   oid ex_a \<noteq> oid ex_b \<and> oid ex_b \<in> alive (heap_run ex_reused) \<and>
   \<not> contains_in (heap_run ex_reused) ex_b \<and>
   \<not> contains_in (heap_run ex_reused) ex_a \<and>
   contains_in (heap_run (ex_reused @ [Add ex_b])) ex_b \<and>
   \<not> contains_in (heap_run (ex_reused @ [Add ex_b])) ex_a"
  using IDBasedWeakSet_contains_identity [of "alive (heap_run ex_reused)"
      "data (heap_run ex_reused)" ex_b ex_a]
  by (simp add: heap_run_def heap0_def contains_in_def IDBasedWeakSet_add_def ex_a_def ex_b_def
      ex_reused_def IDBasedWeakSet_contains_def weakref_call_def)

section \<open>Classification of the nodes\<close>

lemma apply_filtered_fold:
  "apply_filtered lt m fn s = fold (\<lambda>(m', lf). fn m' lf) (fn_calls lt m) s"
  "apply_filtered_children lt cs fn s = fold (\<lambda>(m', lf). fn m' lf) (fn_calls_children lt cs) s"
  by (induction lt m fn s and lt cs fn s rule: apply_filtered_apply_filtered_children.induct) simp_all

lemma fold_append_each: "fold (\<lambda>(m', lf) regs. regs @ [(m', lf)]) xs acc = acc @ xs"
  by (induction xs arbitrary: acc) auto

lemma registrations_fn_calls: "registrations lt net = fn_calls lt net"
  by (simp add: registrations_def apply_filtered_fold fold_append_each)

lemma fn_calls_root: "fn_calls lt net = fn_calls_children lt (children net) @ [(net, children net = [])]"
  by (cases net) simp



lemma fold_register_pre:
  "map snd (forward_pre_hooks (fold (\<lambda>(m', lf). register_hook m' lf) xs s)) =
     map snd (forward_pre_hooks s) @ map (\<lambda>(m', lf). (mid m', lf)) xs"
  by (induction xs arbitrary: s) (auto simp: register_hook_def)

lemma fold_register_post:
  "map snd (forward_hooks (fold (\<lambda>(m', lf). register_hook m' lf) xs s)) =
     map snd (forward_hooks s) @ map (\<lambda>(m', lf). mid m') xs"
  by (induction xs arbitrary: s) (auto simp: register_hook_def)

lemma track_enter_pre:
  "map snd (forward_pre_hooks (track_enter lt net)) =
     map (\<lambda>(m', lf). (mid m', lf)) (registrations lt net)"
  by (simp add: track_enter_def apply_filtered_fold fold_register_pre registrations_fn_calls init_session_def)

lemma track_enter_post:
  "map snd (forward_hooks (track_enter lt net)) = map (\<lambda>(m', lf). mid m') (registrations lt net)"
  by (simp add: track_enter_def apply_filtered_fold fold_register_post registrations_fn_calls init_session_def)




section \<open>Sessions\<close>

subsection \<open>What running modules leaves alone\<close>

lemma same_hooks_refl: "same_hooks s s"
  by (simp add: same_hooks_def)

lemma same_hooks_trans: "same_hooks s s1 \<Longrightarrow> same_hooks s1 s2 \<Longrightarrow> same_hooks s s2"
  by (simp add: same_hooks_def)

lemma pre_hook_same_hooks: "pre_hook tf lf m inp s = (r, s') \<Longrightarrow> same_hooks s s'"
  by (auto simp: pre_hook_def same_hooks_def Let_def split: prod.splits sum.splits option.splits)

lemma hook_same_hooks: "hook tf m inp out s = (r, s') \<Longrightarrow> same_hooks s s'"
  by (auto simp: hook_def same_hooks_def Let_def split: prod.splits if_splits)

lemma run_pre_hooks_same_hooks: "run_pre_hooks tf lfs m inp s = (r, s') \<Longrightarrow> same_hooks s s'"
proof (induction lfs arbitrary: s)
  case Nil
  then show ?case by (simp add: same_hooks_refl)
next
  case (Cons lf lfs)
  obtain r1 s1 where p: "pre_hook tf lf m inp s = (r1, s1)" by (cases "pre_hook tf lf m inp s")
  from pre_hook_same_hooks [OF p] have 1: "same_hooks s s1" .
  show ?case
  proof (cases r1)
    case None
    with Cons.prems p have "run_pre_hooks tf lfs m inp s1 = (r, s')" by simp
    from same_hooks_trans [OF 1 Cons.IH [OF this]] show ?thesis .
  next
    case (Some e)
    with Cons.prems p 1 show ?thesis by simp
  qed
qed

lemma run_hooks_same_hooks: "run_hooks tf n m inp out s = (r, s') \<Longrightarrow> same_hooks s s'"
proof (induction n arbitrary: s)
  case 0
  then show ?case by (simp add: same_hooks_refl)
next
  case (Suc n)
  obtain r1 s1 where p: "hook tf m inp out s = (r1, s1)" by (cases "hook tf m inp out s")
  from hook_same_hooks [OF p] have 1: "same_hooks s s1" .
  show ?case
  proof (cases r1)
    case None
    with Suc.prems p have "run_hooks tf n m inp out s1 = (r, s')" by simp
    from same_hooks_trans [OF 1 Suc.IH [OF this]] show ?thesis .
  next
    case (Some e)
    with Suc.prems p 1 show ?thesis by simp
  qed
qed

lemma call_module_same_hooks:
  "call_module tf c s = (r, s') \<Longrightarrow> same_hooks s s'"
  "call_modules tf cs s = (r, s') \<Longrightarrow> same_hooks s s'"
proof (induction tf c s and tf cs s arbitrary: r s' and r s' rule: call_module_call_modules.induct)
  case (1 tf m inp subs res s)
  obtain r1 s1 where a: "run_pre_hooks tf (pre_hooks_of s m) m inp s = (r1, s1)"
    by (cases "run_pre_hooks tf (pre_hooks_of s m) m inp s")
  note h1 = run_pre_hooks_same_hooks [OF a]
  show ?case
  proof (cases r1)
    case (Some e)
    with "1.prems" a h1 show ?thesis by simp
  next
    case None
    obtain r2 s2 where b: "call_modules tf subs s1 = (r2, s2)" by (cases "call_modules tf subs s1")
    note h2 = same_hooks_trans [OF h1 "1.IH" [OF a [symmetric] None b]]
    show ?thesis
    proof (cases r2)
      case (Some e)
      with "1.prems" a None b h2 show ?thesis by simp
    next
      case n2: None
      show ?thesis
      proof (cases res)
        case (Inl e)
        with "1.prems" a None b n2 h2 show ?thesis by simp
      next
        case (Inr out)
        with "1.prems" a None b n2 have "run_hooks tf (hooks_of s2 m) m inp out s2 = (r, s')" by simp
        from same_hooks_trans [OF h2 run_hooks_same_hooks [OF this]] show ?thesis .
      qed
    qed
  qed
next
  case (2 tf s)
  then show ?case by (simp add: same_hooks_refl)
next
  case (3 tf c cs s)
  obtain r1 s1 where a: "call_module tf c s = (r1, s1)" by (cases "call_module tf c s")
  note h1 = "3.IH"(1) [OF a]
  show ?case
  proof (cases r1)
    case (Some e)
    with "3.prems" a h1 show ?thesis by simp
  next
    case None
    with "3.prems" a have "call_modules tf cs s1 = (r, s')" by simp
    from same_hooks_trans [OF h1 "3.IH"(2) [OF a [symmetric] None this]] show ?thesis .
  qed
qed

subsection \<open>Detaching\<close>

lemma covered_register_hook: "covered s \<Longrightarrow> covered (register_hook m lf s)"
  by (auto simp: covered_def register_hook_def)

lemma covered_fold: "covered s \<Longrightarrow> covered (fold (\<lambda>(m', lf). register_hook m' lf) xs s)"
  by (induction xs arbitrary: s) (auto simp: covered_register_hook)

lemma covered_track_enter: "covered (track_enter lt net)"
proof -
  have "covered (init_session :: ('t, 'k, 'v) session)"
    by (simp add: covered_def init_session_def)
  then show "covered (track_enter lt net :: ('t, 'k, 'v) session)"
    unfolding track_enter_def apply_filtered_fold by (rule covered_fold)
qed

lemma fold_remove_pre:
  "forward_pre_hooks (fold remove hs s) =
     filter (\<lambda>(j, m, lf). Handle (ForwardPre m) j \<notin> set hs) (forward_pre_hooks s)"
proof (induction hs arbitrary: s)
  case Nil
  show ?case by simp
next
  case (Cons h hs)
  show ?case
  proof (cases h)
    case (Handle dict i)
    then show ?thesis using Cons [of "remove h s"]
      by (cases dict) (auto intro!: filter_cong)
  qed
qed

lemma fold_remove_post:
  "forward_hooks (fold remove hs s) =
     filter (\<lambda>(j, m). Handle (Forward m) j \<notin> set hs) (forward_hooks s)"
proof (induction hs arbitrary: s)
  case Nil
  show ?case by simp
next
  case (Cons h hs)
  show ?case
  proof (cases h)
    case (Handle dict i)
    then show ?thesis using Cons [of "remove h s"]
      by (cases dict) (auto intro!: filter_cong)
  qed
qed

lemma fold_remove_rest:
  "trace (fold remove hs s) = trace s \<and> all_trackers (fold remove hs s) = all_trackers s \<and>
   tracker_stack (fold remove hs s) = tracker_stack s \<and> objects (fold remove hs s) = objects s \<and>
   shared_dict (fold remove hs s) = shared_dict s"
proof (induction hs arbitrary: s)
  case Nil
  show ?case by simp
next
  case (Cons h hs)
  have "trace (remove h s) = trace s \<and> all_trackers (remove h s) = all_trackers s \<and>
   tracker_stack (remove h s) = tracker_stack s \<and> objects (remove h s) = objects s \<and>
   shared_dict (remove h s) = shared_dict s"
    by (cases "(h, s)" rule: remove.cases) auto
  with Cons [of "remove h s"] show ?case by simp
qed

lemma track_exit_detached:
  "covered s \<Longrightarrow> forward_pre_hooks (track_exit s) = [] \<and> forward_hooks (track_exit s) = []"
  by (auto simp: track_exit_def fold_remove_pre fold_remove_post covered_def filter_empty_conv)

lemma covered_same_hooks: "covered s \<Longrightarrow> same_hooks s s' \<Longrightarrow> covered s'"
  by (simp add: covered_def same_hooks_def)

lemma registrations_nonempty: "registrations lt net \<noteq> []"
  by (simp add: registrations_fn_calls fn_calls_root)

text \<open>
  C2. \<^verbatim>\<open>track\<close> attaches one entry and one exit interceptor for every call of \<^verbatim>\<open>register_hook\<close>
  (there is at least one, for the root); they stay attached while the body runs; and when
  the \<^verbatim>\<open>with\<close> statement is left no interceptor is attached any more, whether the body returned
  or raised. What leaves the \<^verbatim>\<open>with\<close> statement is what the body raised, if it raised.
\<close>

theorem track_detaches:
  fixes tf :: "('t, 'k, 'v) tracker_class"
  shows
  "map snd (forward_pre_hooks (track_enter lt net :: ('t, 'k, 'v) session)) =
     map (\<lambda>(m, lf). (mid m, lf)) (registrations lt net) \<and>
   map snd (forward_hooks (track_enter lt net :: ('t, 'k, 'v) session)) =
     map (\<lambda>(m, lf). mid m) (registrations lt net) \<and>
   registrations lt net \<noteq> [] \<and>
   forward_pre_hooks (snd (call_modules tf body (track_enter lt net))) =
     forward_pre_hooks (track_enter lt net :: ('t, 'k, 'v) session) \<and>
   forward_hooks (snd (call_modules tf body (track_enter lt net))) =
     forward_hooks (track_enter lt net :: ('t, 'k, 'v) session) \<and>
   forward_pre_hooks (snd (track tf lt net body)) = [] \<and>
   forward_hooks (snd (track tf lt net body)) = [] \<and>
   fst (track tf lt net body) = fst (call_modules tf body (track_enter lt net))"
proof -
  obtain r s where run: "call_modules tf body (track_enter lt net) = (r, s)"
    by (cases "call_modules tf body (track_enter lt net)")
  note same = call_module_same_hooks(2) [OF run]
  from covered_same_hooks [OF covered_track_enter same] have "covered s" .
  from track_exit_detached [OF this] run same
  show ?thesis
    by (simp add: track_def track_enter_pre track_enter_post registrations_nonempty same_hooks_def)
qed

subsection \<open>Events\<close>








subsection \<open>Stretches that leave the stack as it was\<close>













lemma fold_register_rest:
  "all_trackers (fold (\<lambda>(m', lf). register_hook m' lf) xs s) = all_trackers s \<and>
   tracker_stack (fold (\<lambda>(m', lf). register_hook m' lf) xs s) = tracker_stack s \<and>
   trace (fold (\<lambda>(m', lf). register_hook m' lf) xs s) = trace s"
  by (induction xs arbitrary: s) (auto simp: register_hook_def)

lemma track_enter_fresh:
  "all_trackers (track_enter lt net) = [] \<and> tracker_stack (track_enter lt net) = [] \<and>
   trace (track_enter lt net) = []"
  by (simp add: track_enter_def apply_filtered_fold fold_register_rest init_session_def)








subsection \<open>The references of a session\<close>

lemma pre_hook_refs_valid:
  "pre_hook tf lf m inp s = (r, s') \<Longrightarrow> refs_valid s \<Longrightarrow> refs_valid s'"
  by (auto simp: pre_hook_def refs_valid_def Let_def less_Suc_eq
      split: prod.splits sum.splits option.splits)

lemma hook_refs_valid:
  "hook tf m inp out s = (r, s') \<Longrightarrow> refs_valid s \<Longrightarrow> refs_valid s'"
  by (auto simp: hook_def refs_valid_def Let_def split: prod.splits if_splits
      dest!: in_set_butlastD)

lemma run_pre_hooks_refs_valid:
  "run_pre_hooks tf lfs m inp s = (r, s') \<Longrightarrow> refs_valid s \<Longrightarrow> refs_valid s'"
proof (induction lfs arbitrary: s)
  case Nil
  then show ?case by simp
next
  case (Cons lf lfs)
  obtain r1 s1 where p: "pre_hook tf lf m inp s = (r1, s1)" by (cases "pre_hook tf lf m inp s")
  note v = pre_hook_refs_valid [OF p Cons.prems(2)]
  show ?case
  proof (cases r1)
    case None
    with Cons.prems(1) p have "run_pre_hooks tf lfs m inp s1 = (r, s')" by simp
    from Cons.IH [OF this v] show ?thesis .
  next
    case (Some e)
    with Cons.prems(1) p v show ?thesis by simp
  qed
qed

lemma run_hooks_refs_valid:
  "run_hooks tf n m inp out s = (r, s') \<Longrightarrow> refs_valid s \<Longrightarrow> refs_valid s'"
proof (induction n arbitrary: s)
  case 0
  then show ?case by simp
next
  case (Suc n)
  obtain r1 s1 where p: "hook tf m inp out s = (r1, s1)" by (cases "hook tf m inp out s")
  note v = hook_refs_valid [OF p Suc.prems(2)]
  show ?case
  proof (cases r1)
    case None
    with Suc.prems(1) p have "run_hooks tf n m inp out s1 = (r, s')" by simp
    from Suc.IH [OF this v] show ?thesis .
  next
    case (Some e)
    with Suc.prems(1) p v show ?thesis by simp
  qed
qed

lemma call_module_refs_valid:
  "call_module tf c s = (r, s') \<Longrightarrow> refs_valid s \<Longrightarrow> refs_valid s'"
  "call_modules tf cs s = (r, s') \<Longrightarrow> refs_valid s \<Longrightarrow> refs_valid s'"
proof (induction tf c s and tf cs s arbitrary: r s' and r s' rule: call_module_call_modules.induct)
  case (1 tf m inp subs res s)
  obtain r1 s1 where a: "run_pre_hooks tf (pre_hooks_of s m) m inp s = (r1, s1)"
    by (cases "run_pre_hooks tf (pre_hooks_of s m) m inp s")
  note v1 = run_pre_hooks_refs_valid [OF a "1.prems"(2)]
  show ?case
  proof (cases r1)
    case (Some e)
    with "1.prems"(1) a v1 show ?thesis by simp
  next
    case None
    obtain r2 s2 where b: "call_modules tf subs s1 = (r2, s2)" by (cases "call_modules tf subs s1")
    note v2 = "1.IH" [OF a [symmetric] None b v1]
    show ?thesis
    proof (cases r2)
      case (Some e)
      with "1.prems"(1) a None b v2 show ?thesis by simp
    next
      case n2: None
      show ?thesis
      proof (cases res)
        case (Inl e)
        with "1.prems"(1) a None b n2 v2 show ?thesis by simp
      next
        case (Inr out)
        with "1.prems"(1) a None b n2 have "run_hooks tf (hooks_of s2 m) m inp out s2 = (r, s')" by simp
        from run_hooks_refs_valid [OF this v2] show ?thesis .
      qed
    qed
  qed
next
  case (2 tf s)
  then show ?case by simp
next
  case (3 tf c cs s)
  obtain r1 s1 where a: "call_module tf c s = (r1, s1)" by (cases "call_module tf c s")
  note v1 = "3.IH"(1) [OF a "3.prems"(2)]
  show ?case
  proof (cases r1)
    case (Some e)
    with "3.prems"(1) a v1 show ?thesis by simp
  next
    case None
    with "3.prems"(1) a have "call_modules tf cs s1 = (r, s')" by simp
    from "3.IH"(2) [OF a [symmetric] None this v1] show ?thesis .
  qed
qed

lemma track_refs_valid:
  fixes tf :: "('t, 'k, 'v) tracker_class"
  shows "refs_valid (snd (track tf lt net body))"
proof -
  let ?s0 = "track_enter lt net :: ('t, 'k, 'v) session"
  obtain r s where run: "call_modules tf body ?s0 = (r, s)" by (cases "call_modules tf body ?s0")
  have "refs_valid ?s0" by (simp add: refs_valid_def track_enter_fresh)
  from call_module_refs_valid(2) [OF run this] have "refs_valid s" .
  with fold_remove_rest [of "hooks s" s] run show ?thesis
    by (simp add: track_def track_exit_def refs_valid_def)
qed

subsection \<open>Depths\<close>












section \<open>Sessions over the doctest net\<close>

text \<open>
  The doctest session and the session whose body raises: the exception of \<^verbatim>\<open>forward\<close> leaves
  the \<^verbatim>\<open>with\<close> statement, and in both sessions the twelve hooks are attached and removed.
\<close>

theorem track_detaches_witness:
  "fst ex_failed_session = Some (Raised ''size mismatch'') \<and>
   forward_pre_hooks (snd ex_failed_session) = [] \<and>
   forward_hooks (snd ex_failed_session) = [] \<and>
   fst ex_session = None \<and>
   forward_pre_hooks (snd ex_session) = [] \<and>
   forward_hooks (snd ex_session) = [] \<and>
   map snd (forward_pre_hooks (track_enter [] ex_net :: (parameter_tracker, nat, nat) session)) =
     [(1, True), (2, True), (4, True), (5, True), (3, False), (0, False)] \<and>
   map snd (forward_hooks (track_enter [] ex_net :: (parameter_tracker, nat, nat) session)) =
     [1, 2, 4, 5, 3, 0]"
proof -
  have 1: "fst ex_failed_session = Some (Raised ''size mismatch'')" by code_simp
  have 2: "fst ex_session = None" by code_simp
  have 3: "map (\<lambda>(m, lf). (mid m, lf)) (registrations [] ex_net) =
     [(1, True), (2, True), (4, True), (5, True), (3, False), (0, False)]" by code_simp
  have 4: "map (\<lambda>(m, lf). mid m) (registrations [] ex_net) = [1, 2, 4, 5, 3, 0]" by code_simp
  note a = track_detaches [of "[]" ex_net "ParameterTracker :: (parameter_tracker, nat, nat) tracker_class" "[ex_failing_call]"]
  note b = track_detaches [of "[]" ex_net "ParameterTracker :: (parameter_tracker, nat, nat) tracker_class" "[ex_call]"]
  from a b 1 2 3 4 show ?thesis
    by (simp add: ex_failed_session_def ex_session_def)
qed



text \<open>
  The doctest of \<^verbatim>\<open>tracker_list\<close>, with \<^verbatim>\<open>ParameterTracker\<close> in both positions: every entry of
  the result list holds two wrapped trackers, each with the numbers that its kind records
  when it runs alone.
\<close>

lemma tracker_list_session:
  "fst (track (tracker_list [ParameterTracker, ParameterTracker]) [] ex_net [ex_call]
     :: error option \<times> (parameter_tracker list, nat, nat \<rightharpoonup> nat) session) = None \<and>
   map (map num_params)
     (objects (snd (track (tracker_list [ParameterTracker, ParameterTracker]) [] ex_net [ex_call]
        :: error option \<times> (parameter_tracker list, nat, nat \<rightharpoonup> nat) session))) =
     map (\<lambda>n. [Some n, Some n]) [0, 4000, 0, 0, 2002, 0]"
  by code_simp

section \<open>The tracker combinator\<close>

lemma slot_upd_other: "k \<noteq> i \<Longrightarrow> slot (shared(i \<mapsto> sub)) k = slot shared k"
  by (simp add: slot_def)

lemma slot_upd_same: "slot (shared(i \<mapsto> sub)) i = sub"
  by (simp add: slot_def)

lemma init_from_frame:
  "TrackerList_init_from i tfs c d l shared = (r, shared') \<Longrightarrow> k < i \<Longrightarrow> shared' k = shared k"
proof (induction tfs arbitrary: i shared r shared')
  case Nil
  then show ?case by simp
next
  case (Cons tf tfs)
  obtain r0 sub where new: "tk_new tf c d l (slot shared i) = (r0, sub)" by (cases "tk_new tf c d l (slot shared i)")
  show ?case
  proof (cases r0)
    case (Inl e)
    with Cons.prems new show ?thesis by auto
  next
    case (Inr t)
    obtain r1 sh1 where rec: "TrackerList_init_from (Suc i) tfs c d l (shared(i \<mapsto> sub)) = (r1, sh1)"
      by (cases "TrackerList_init_from (Suc i) tfs c d l (shared(i \<mapsto> sub))")
    from Cons.IH [OF rec] Cons.prems(2) have "sh1 k = shared k" by simp
    moreover from Cons.prems(1) new Inr rec have "shared' = sh1" by (auto split: sum.splits)
    ultimately show ?thesis by simp
  qed
qed

lemma init_from_built:
  "TrackerList_init_from i tfs c d l shared = (Inr ts, shared') \<Longrightarrow>
     length ts = length tfs \<and>
     (\<forall>n < length tfs. tk_new (tfs ! n) c d l (slot shared (i + n)) = (Inr (ts ! n), slot shared' (i + n)))"
proof (induction tfs arbitrary: i shared ts shared')
  case Nil
  then show ?case by simp
next
  case (Cons tf tfs)
  from Cons.prems obtain t sub ts0 where new: "tk_new tf c d l (slot shared i) = (Inr t, sub)"
    and rec: "TrackerList_init_from (Suc i) tfs c d l (shared(i \<mapsto> sub)) = (Inr ts0, shared')"
    and ts: "ts = t # ts0"
    by (auto split: prod.splits sum.splits)
  note ih = Cons.IH [OF rec]
  from ih have len: "length ts0 = length tfs" by (rule conjunct1)
  have each: "tk_new (tfs ! n) c d l (slot (shared(i \<mapsto> sub)) (Suc i + n)) =
      (Inr (ts0 ! n), slot shared' (Suc i + n))" if "n < length tfs" for n
    using ih [THEN conjunct2, rule_format, OF that] .
  from init_from_frame [OF rec, of i] have "shared' i = Some sub" by simp
  then have here: "slot shared' i = sub" by (simp add: slot_def)
  have "tk_new ((tf # tfs) ! n) c d l (slot shared (i + n)) = (Inr (ts ! n), slot shared' (i + n))"
    if "n < length (tf # tfs)" for n
  proof (cases n)
    case 0
    with new here ts show ?thesis by simp
  next
    case (Suc n')
    with that each [of n'] ts show ?thesis by (simp add: slot_upd_other)
  qed
  with len ts show ?case by simp
qed

lemma for_instances_frame:
  "for_instances call i tfs ts shared = (r, ts', shared') \<Longrightarrow> k < i \<Longrightarrow> shared' k = shared k"
proof (induction call i tfs ts shared arbitrary: r ts' shared' rule: for_instances.induct)
  case (1 call i tf tfs t ts shared)
  obtain r0 t0 sub where c: "call tf t (slot shared i) = (r0, t0, sub)"
    by (cases "call tf t (slot shared i)")
  show ?case
  proof (cases r0)
    case None
    obtain r1 ts1 sh1 where rec: "for_instances call (Suc i) tfs ts (shared(i \<mapsto> sub)) = (r1, ts1, sh1)"
      by (cases "for_instances call (Suc i) tfs ts (shared(i \<mapsto> sub))")
    from "1.IH" [OF c [symmetric] None refl rec] "1.prems"(2) have "sh1 k = shared k" by simp
    moreover from "1.prems"(1) c None rec have "shared' = sh1" by simp
    ultimately show ?thesis by simp
  next
    case (Some e)
    with "1.prems" c show ?thesis by auto
  qed
qed simp_all


lemma for_instances_length:
  "for_instances call i tfs ts shared = (r, ts', shared') \<Longrightarrow> length ts' = length ts"
proof (induction call i tfs ts shared arbitrary: r ts' shared' rule: for_instances.induct)
  case (1 call i tf tfs t ts shared)
  obtain r0 t0 sub where c: "call tf t (slot shared i) = (r0, t0, sub)"
    by (cases "call tf t (slot shared i)")
  show ?case
  proof (cases r0)
    case None
    obtain r1 ts1 sh1 where rec: "for_instances call (Suc i) tfs ts (shared(i \<mapsto> sub)) = (r1, ts1, sh1)"
      by (cases "for_instances call (Suc i) tfs ts (shared(i \<mapsto> sub))")
    from "1.IH" [OF c [symmetric] None refl rec] have "length ts1 = length ts" .
    moreover from "1.prems"(1) c None rec have "ts' = t0 # ts1" by simp
    ultimately show ?thesis by simp
  next
    case (Some e)
    with "1.prems" c show ?thesis by auto
  qed
qed simp_all

lemma for_instances_returns:
  "length ts = length tfs \<Longrightarrow> for_instances call i tfs ts shared = (None, ts', shared') \<Longrightarrow>
     n < length tfs \<Longrightarrow>
     call (tfs ! n) (ts ! n) (slot shared (i + n)) = (None, ts' ! n, slot shared' (i + n))"
proof (induction tfs arbitrary: i ts shared ts' shared' n)
  case Nil
  then show ?case by simp
next
  case (Cons tf tfs)
  from Cons.prems(1) obtain t ts0 where ts: "ts = t # ts0" and len: "length ts0 = length tfs"
    by (cases ts) auto
  from Cons.prems(2) ts obtain t1 sub ts1 where c: "call tf t (slot shared i) = (None, t1, sub)"
    and rec: "for_instances call (Suc i) tfs ts0 (shared(i \<mapsto> sub)) = (None, ts1, shared')"
    and ts': "ts' = t1 # ts1"
    by (auto split: prod.splits option.splits)
  from for_instances_frame [OF rec, of i] have here: "slot shared' i = sub"
    by (simp add: slot_def)
  show ?case
  proof (cases n)
    case 0
    with c here ts ts' show ?thesis by simp
  next
    case (Suc n')
    with Cons.prems(3) have "n' < length tfs" by simp
    note b = Cons.IH [OF len rec this]
    have eq: "slot (shared(i \<mapsto> sub)) (Suc i + n') = slot shared (i + n)"
      "slot shared' (Suc i + n') = slot shared' (i + n)"
      using Suc by (simp_all add: slot_upd_other)
    have "(tf # tfs) ! n = tfs ! n'" "ts ! n = ts0 ! n'" "ts' ! n = ts1 ! n'"
      using Suc ts ts' by simp_all
    with b eq show ?thesis by metis
  qed
qed

lemma for_instances_raises:
  "length ts = length tfs \<Longrightarrow> for_instances call i tfs ts shared = (Some e, ts', shared') \<Longrightarrow>
     \<exists>j < length tfs.
       call (tfs ! j) (ts ! j) (slot shared (i + j)) = (Some e, ts' ! j, slot shared' (i + j)) \<and>
       (\<forall>n < j. call (tfs ! n) (ts ! n) (slot shared (i + n)) = (None, ts' ! n, slot shared' (i + n))) \<and>
       (\<forall>n. j < n \<and> n < length tfs \<longrightarrow> ts' ! n = ts ! n \<and> shared' (i + n) = shared (i + n))"
proof (induction tfs arbitrary: i ts shared ts' shared')
  case Nil
  then show ?case by simp
next
  case (Cons tf tfs)
  from Cons.prems(1) obtain t ts0 where ts: "ts = t # ts0" and len: "length ts0 = length tfs"
    by (cases ts) auto
  obtain r0 t1 sub where c: "call tf t (slot shared i) = (r0, t1, sub)"
    by (cases "call tf t (slot shared i)")
  show ?case
  proof (cases r0)
    case (Some e0)
    with Cons.prems(2) ts c have "e0 = e" "ts' = t1 # ts0" "shared' = shared(i \<mapsto> sub)" by auto
    with c Some ts have
      "call ((tf # tfs) ! 0) (ts ! 0) (slot shared (i + 0)) = (Some e, ts' ! 0, slot shared' (i + 0)) \<and>
       (\<forall>n < 0. call ((tf # tfs) ! n) (ts ! n) (slot shared (i + n)) = (None, ts' ! n, slot shared' (i + n))) \<and>
       (\<forall>n. 0 < n \<and> n < length (tf # tfs) \<longrightarrow> ts' ! n = ts ! n \<and> shared' (i + n) = shared (i + n))"
      by (auto simp: slot_def)
    then show ?thesis by blast
  next
    case None
    with Cons.prems(2) ts c obtain ts1 where
      rec: "for_instances call (Suc i) tfs ts0 (shared(i \<mapsto> sub)) = (Some e, ts1, shared')"
      and ts': "ts' = t1 # ts1"
      by (auto split: prod.splits)
    from for_instances_frame [OF rec, of i] have here: "slot shared' i = sub"
      by (simp add: slot_def)
    from Cons.IH [OF len rec] obtain j where j: "j < length tfs"
      and at: "call (tfs ! j) (ts0 ! j) (slot (shared(i \<mapsto> sub)) (Suc i + j)) =
                 (Some e, ts1 ! j, slot shared' (Suc i + j))"
      and before: "\<And>n. n < j \<Longrightarrow> call (tfs ! n) (ts0 ! n) (slot (shared(i \<mapsto> sub)) (Suc i + n)) =
                 (None, ts1 ! n, slot shared' (Suc i + n))"
      and after: "\<And>n. j < n \<Longrightarrow> n < length tfs \<Longrightarrow>
                 ts1 ! n = ts0 ! n \<and> shared' (Suc i + n) = (shared(i \<mapsto> sub)) (Suc i + n)"
      by blast
    have 1: "call ((tf # tfs) ! Suc j) (ts ! Suc j) (slot shared (i + Suc j)) =
               (Some e, ts' ! Suc j, slot shared' (i + Suc j))"
      using at ts ts' by (simp add: slot_upd_other)
    have 2: "call ((tf # tfs) ! n) (ts ! n) (slot shared (i + n)) = (None, ts' ! n, slot shared' (i + n))"
      if "n < Suc j" for n
    proof (cases n)
      case 0
      with c None here ts ts' show ?thesis by simp
    next
      case (Suc n')
      with that have "n' < j" by simp
      note b = before [OF this]
      have eq: "slot (shared(i \<mapsto> sub)) (Suc i + n') = slot shared (i + n)"
        "slot shared' (Suc i + n') = slot shared' (i + n)"
        using Suc by (simp_all add: slot_upd_other)
      have "(tf # tfs) ! n = tfs ! n'" "ts ! n = ts0 ! n'" "ts' ! n = ts1 ! n'"
        using Suc ts ts' by simp_all
      with b eq show ?thesis by metis
    qed
    have 3: "ts' ! n = ts ! n \<and> shared' (i + n) = shared (i + n)"
      if "Suc j < n" "n < length (tf # tfs)" for n
    proof -
      from that obtain n' where n: "n = Suc n'" "j < n'" "n' < length tfs" by (cases n) auto
      from after [OF n(2) n(3)] n(1) ts ts' show ?thesis by simp
    qed
    from j 1 2 3 show ?thesis by (intro exI [of _ "Suc j"]) auto
  qed
qed


text \<open>
  C6. For the tracker kind that \<^verbatim>\<open>tracker_list\<close> returns for the factories \<open>tfs\<close>: an object
  that was constructed holds one wrapped instance per factory, the one at position \<open>n\<close> built
  by factory \<open>n\<close> with the sub-dict of position \<open>n\<close>. \<^verbatim>\<open>pre\<close> and \<^verbatim>\<open>post\<close> that return have
  called the method of every wrapped instance, each with the sub-dict of its own position as
  it was before the call. They go in the order of the positions: when one raises, it is the
  method of some instance \<open>j\<close> that raised, the instances before \<open>j\<close> have run, and the
  instances after \<open>j\<close> and their sub-dicts are untouched. Indexing with \<open>n\<close> gives the wrapped
  instance at position \<open>n\<close>.
\<close>

theorem tracker_list_fans_out:
  "(tk_new (tracker_list tfs) c d l shared = (Inr ts, shared') \<longrightarrow>
      length ts = length tfs \<and>
      (\<forall>n < length tfs. tk_new (tfs ! n) c d l (slot shared n) = (Inr (ts ! n), slot shared' n))) \<and>
   (length ts = length tfs \<longrightarrow> tk_pre (tracker_list tfs) ts m inp shared = (None, ts', shared') \<longrightarrow>
      length ts' = length tfs \<and>
      (\<forall>n < length tfs. tk_pre (tfs ! n) (ts ! n) m inp (slot shared n) = (None, ts' ! n, slot shared' n))) \<and>
   (length ts = length tfs \<longrightarrow> tk_pre (tracker_list tfs) ts m inp shared = (Some e, ts', shared') \<longrightarrow>
      (\<exists>j < length tfs.
         tk_pre (tfs ! j) (ts ! j) m inp (slot shared j) = (Some e, ts' ! j, slot shared' j) \<and>
         (\<forall>n < j. tk_pre (tfs ! n) (ts ! n) m inp (slot shared n) = (None, ts' ! n, slot shared' n)) \<and>
         (\<forall>n. j < n \<and> n < length tfs \<longrightarrow> ts' ! n = ts ! n \<and> shared' n = shared n))) \<and>
   (length ts = length tfs \<longrightarrow> tk_post (tracker_list tfs) ts m inp out shared = (None, ts', shared') \<longrightarrow>
      length ts' = length tfs \<and>
      (\<forall>n < length tfs. tk_post (tfs ! n) (ts ! n) m inp out (slot shared n) = (None, ts' ! n, slot shared' n))) \<and>
   (length ts = length tfs \<longrightarrow> tk_post (tracker_list tfs) ts m inp out shared = (Some e, ts', shared') \<longrightarrow>
      (\<exists>j < length tfs.
         tk_post (tfs ! j) (ts ! j) m inp out (slot shared j) = (Some e, ts' ! j, slot shared' j) \<and>
         (\<forall>n < j. tk_post (tfs ! n) (ts ! n) m inp out (slot shared n) = (None, ts' ! n, slot shared' n)) \<and>
         (\<forall>n. j < n \<and> n < length tfs \<longrightarrow> ts' ! n = ts ! n \<and> shared' n = shared n))) \<and>
   (n < length ts \<longrightarrow> TrackerList_getitem ts (int n) = Inr (ts ! n))"
proof (intro conjI impI)
  assume "tk_new (tracker_list tfs) c d l shared = (Inr ts, shared')"
  then have "TrackerList_init_from 0 tfs c d l shared = (Inr ts, shared')"
    by (simp add: tracker_list_def TrackerList_init_def)
  from init_from_built [OF this]
  show "length ts = length tfs"
    and "\<forall>n < length tfs. tk_new (tfs ! n) c d l (slot shared n) = (Inr (ts ! n), slot shared' n)"
    by simp_all
next
  assume len: "length ts = length tfs"
    and "tk_pre (tracker_list tfs) ts m inp shared = (None, ts', shared')"
  then have run: "for_instances (\<lambda>tf t. tk_pre tf t m inp) 0 tfs ts shared = (None, ts', shared')"
    by (simp add: tracker_list_def TrackerList_pre_def)
  from for_instances_length [OF run] len show "length ts' = length tfs" by simp
  from for_instances_returns [OF len run]
  show "\<forall>n < length tfs. tk_pre (tfs ! n) (ts ! n) m inp (slot shared n) = (None, ts' ! n, slot shared' n)"
    by simp
next
  assume len: "length ts = length tfs"
    and "tk_pre (tracker_list tfs) ts m inp shared = (Some e, ts', shared')"
  then have run: "for_instances (\<lambda>tf t. tk_pre tf t m inp) 0 tfs ts shared = (Some e, ts', shared')"
    by (simp add: tracker_list_def TrackerList_pre_def)
  from for_instances_raises [OF len run]
  show "\<exists>j < length tfs.
         tk_pre (tfs ! j) (ts ! j) m inp (slot shared j) = (Some e, ts' ! j, slot shared' j) \<and>
         (\<forall>n < j. tk_pre (tfs ! n) (ts ! n) m inp (slot shared n) = (None, ts' ! n, slot shared' n)) \<and>
         (\<forall>n. j < n \<and> n < length tfs \<longrightarrow> ts' ! n = ts ! n \<and> shared' n = shared n)"
    by simp
next
  assume len: "length ts = length tfs"
    and "tk_post (tracker_list tfs) ts m inp out shared = (None, ts', shared')"
  then have run: "for_instances (\<lambda>tf t. tk_post tf t m inp out) 0 tfs ts shared = (None, ts', shared')"
    by (simp add: tracker_list_def TrackerList_post_def)
  from for_instances_length [OF run] len show "length ts' = length tfs" by simp
  from for_instances_returns [OF len run]
  show "\<forall>n < length tfs. tk_post (tfs ! n) (ts ! n) m inp out (slot shared n) = (None, ts' ! n, slot shared' n)"
    by simp
next
  assume len: "length ts = length tfs"
    and "tk_post (tracker_list tfs) ts m inp out shared = (Some e, ts', shared')"
  then have run: "for_instances (\<lambda>tf t. tk_post tf t m inp out) 0 tfs ts shared = (Some e, ts', shared')"
    by (simp add: tracker_list_def TrackerList_post_def)
  from for_instances_raises [OF len run]
  show "\<exists>j < length tfs.
         tk_post (tfs ! j) (ts ! j) m inp out (slot shared j) = (Some e, ts' ! j, slot shared' j) \<and>
         (\<forall>n < j. tk_post (tfs ! n) (ts ! n) m inp out (slot shared n) = (None, ts' ! n, slot shared' n)) \<and>
         (\<forall>n. j < n \<and> n < length tfs \<longrightarrow> ts' ! n = ts ! n \<and> shared' n = shared n)"
    by simp
next
  assume "n < length ts"
  then show "TrackerList_getitem ts (int n) = Inr (ts ! n)"
    by (simp add: TrackerList_getitem_def)
qed

theorem tracker_list_fans_out_witness:
  "fst (tk_new (tracker_list [ex_counter, ex_counter]) 5 1 True Map.empty) = Inr [0, 0] \<and>
   slot (snd (tk_new (tracker_list [ex_counter, ex_counter]) 5 1 True Map.empty)) 0 0 = Some 5 \<and>
   slot (snd (tk_new (tracker_list [ex_counter, ex_counter]) 5 1 True Map.empty)) 1 0 = Some 5 \<and>
   fst (tk_pre (tracker_list [ex_counter, ex_counter]) [0, 0] ex_net Opaque Map.empty) = None \<and>
   fst (snd (tk_pre (tracker_list [ex_counter, ex_counter]) [0, 0] ex_net Opaque Map.empty)) = [1, 1] \<and>
   fst (tk_pre (tracker_list [ex_counter, ex_raising, ex_counter]) [0, 0, 0] ex_net Opaque Map.empty) =
     Some (Raised ''pre'') \<and>
   fst (snd (tk_pre (tracker_list [ex_counter, ex_raising, ex_counter]) [0, 0, 0] ex_net Opaque Map.empty)) =
     [1, 0, 0] \<and>
   snd (snd (tk_pre (tracker_list [ex_counter, ex_raising, ex_counter]) [0, 0, 0] ex_net Opaque Map.empty)) 2 =
     None \<and>
   fst (tk_post (tracker_list [ex_counter, ex_counter]) [1, 1] ex_net Opaque Opaque Map.empty) = None \<and>
   fst (snd (tk_post (tracker_list [ex_counter, ex_counter]) [1, 1] ex_net Opaque Opaque Map.empty)) = [2, 2] \<and>
   fst (tk_post (tracker_list [ex_raising, ex_counter]) [1, 1] ex_net Opaque Opaque Map.empty) =
     Some (Raised ''post'') \<and>
   fst (snd (tk_post (tracker_list [ex_raising, ex_counter]) [1, 1] ex_net Opaque Opaque Map.empty)) = [1, 1] \<and>
   TrackerList_getitem [7, 8 :: nat] 1 = Inr 8"
  using tracker_list_fans_out [where tfs = "[ex_counter, ex_counter]" and c = 5 and d = 1 and l = True
      and shared = Map.empty and ts = "[0, 0]" and m = ex_net and inp = Opaque and out = Opaque
      and shared' = "snd (tk_new (tracker_list [ex_counter, ex_counter]) 5 1 True Map.empty)"
      and n = 1]
    tracker_list_fans_out [where tfs = "[ex_counter, ex_raising, ex_counter]" and shared = Map.empty
      and ts = "[0, 0, 0]" and m = ex_net and inp = Opaque and e = "Raised ''pre''" and ts' = "[1, 0, 0]"
      and shared' = "snd (snd (tk_pre (tracker_list [ex_counter, ex_raising, ex_counter]) [0, 0, 0]
         ex_net Opaque Map.empty))"]
  by (simp add: tracker_list_def TrackerList_init_def TrackerList_pre_def TrackerList_post_def
      TrackerList_getitem_def ex_counter_def ex_raising_def slot_def ex_net_def)


end
